theory Spec2Isabelle
  imports Main "HOL-Library.AList"
begin

section \<open>Flashcard scheduler: data model\<close>

text \<open>
  The scheduler of \<^verbatim>\<open>src/algorithm.ts\<close> works on two representations of the learning
  buckets: a \<^verbatim>\<open>Map<number, Set<Flashcard>>\<close> (the sparse bucket map) and an
  \<^verbatim>\<open>Array<Set<Flashcard>>\<close> (the dense bucket array).

  A flashcard is compared by object identity only (\<^verbatim>\<open>Set.has\<close>, \<^verbatim>\<open>Set.add\<close>,
  \<^verbatim>\<open>Set.delete\<close>), so a card is modelled by its identity, a value of an arbitrary
  type \<open>'c\<close>. Bucket numbers and day numbers are natural numbers: the range in which
  the arithmetic of a JavaScript number is exact. (Where \<^verbatim>\<open>2 ** i\<close> exceeds that range
  it is a power of two or \<^verbatim>\<open>Infinity\<close>, and \<^verbatim>\<open>day % (2 ** i)\<close> is \<^verbatim>\<open>day\<close>, as
  \<open>day mod 2 ^ i\<close> is.) Nothing in the file throws, so no function has an error result.

  \<^verbatim>\<open>update\<close> computes \<^verbatim>\<open>currentBucket + 1\<close> on a key of the caller's map, which can be
  any number; \<open>js_add1\<close> is that addition of doubles on the non-negative integers that
  are doubles. Below \<open>2 ^ 53\<close> it is exact. From \<open>2 ^ 53\<close> to \<open>2 ^ 54\<close> the doubles are
  the even numbers and \<open>x + 1\<close> lies halfway between two of them: the sum is the one with
  the even significand, \<open>x\<close> when 4 divides \<open>x\<close> and \<open>x + 2\<close> otherwise. From \<open>2 ^ 54\<close>
  on the doubles are at least 4 apart and the sum is \<open>x\<close>. So \<open>2 ^ 53 + 1\<close> is \<open>2 ^ 53\<close>.
\<close>

datatype AnswerDifficulty = Wrong | Hard | Easy

definition js_add1 :: "nat \<Rightarrow> nat" where
  "js_add1 x =
     (if x < 9007199254740992 then x + 1
      else if x < 18014398509481984 \<and> x mod 4 = 2 then x + 2
      else x)"

subsection \<open>The contents of a JavaScript Set\<close>

text \<open>
  A \<^verbatim>\<open>Set\<close> keeps its elements in insertion order and without duplicates; its contents
  are a list. \<^verbatim>\<open>add\<close> appends an element that is not there yet, \<^verbatim>\<open>delete\<close> removes
  it, \<^verbatim>\<open>size\<close> is the length.
\<close>

definition Set_has_v :: "'c list \<Rightarrow> 'c \<Rightarrow> bool" where
  "Set_has_v s c = (c \<in> set s)"

definition Set_add_v :: "'c \<Rightarrow> 'c list \<Rightarrow> 'c list" where
  "Set_add_v c s = (if c \<in> set s then s else s @ [c])"

definition Set_delete_v :: "'c \<Rightarrow> 'c list \<Rightarrow> 'c list" where
  "Set_delete_v c s = removeAll c s"

subsection \<open>The store of Set and Map objects\<close>

text \<open>
  \<^verbatim>\<open>update\<close> mutates Set objects that the caller's map refers to, so Set and Map
  objects live in a store and are named by their addresses. A Map object holds its
  entries in insertion order, each key once, each value the address of a Set object.
  \<open>nextSet\<close> and \<open>nextMap\<close> are the addresses that the next \<^verbatim>\<open>new Set\<close> and
  \<^verbatim>\<open>new Map\<close> return.
\<close>

type_synonym addr = nat

record 'c store =
  setHeap :: "addr \<Rightarrow> 'c list"
  nextSet :: addr
  mapHeap :: "addr \<Rightarrow> (nat \<times> addr) list"
  nextMap :: addr

definition new_Set :: "'c store \<Rightarrow> addr \<times> 'c store" where
  "new_Set st =
     (nextSet st, st\<lparr>setHeap := (setHeap st)(nextSet st := []), nextSet := Suc (nextSet st)\<rparr>)"

definition new_Map :: "addr \<Rightarrow> 'c store \<Rightarrow> addr \<times> 'c store" where
  \<comment> \<open>\<^verbatim>\<open>new Map(src)\<close>: a new Map object with the entries of \<open>src\<close>, the same Set objects\<close>
  "new_Map src st =
     (nextMap st, st\<lparr>mapHeap := (mapHeap st)(nextMap st := mapHeap st src), nextMap := Suc (nextMap st)\<rparr>)"

definition Map_get :: "'c store \<Rightarrow> addr \<Rightarrow> nat \<Rightarrow> addr option" where
  "Map_get st m k = map_of (mapHeap st m) k"

definition Map_set :: "addr \<Rightarrow> nat \<Rightarrow> addr \<Rightarrow> 'c store \<Rightarrow> 'c store" where
  \<comment> \<open>an existing key keeps its place, a new key goes to the end\<close>
  "Map_set m k s st = st\<lparr>mapHeap := (mapHeap st)(m := AList.update k s (mapHeap st m))\<rparr>"

definition Map_keys :: "'c store \<Rightarrow> addr \<Rightarrow> nat list" where
  "Map_keys st m = map fst (mapHeap st m)"

definition Set_has :: "'c store \<Rightarrow> addr \<Rightarrow> 'c \<Rightarrow> bool" where
  "Set_has st s c = Set_has_v (setHeap st s) c"

definition Set_add :: "addr \<Rightarrow> 'c \<Rightarrow> 'c store \<Rightarrow> 'c store" where
  "Set_add s c st = st\<lparr>setHeap := (setHeap st)(s := Set_add_v c (setHeap st s))\<rparr>"

definition Set_delete :: "addr \<Rightarrow> 'c \<Rightarrow> 'c store \<Rightarrow> 'c store" where
  "Set_delete s c st = st\<lparr>setHeap := (setHeap st)(s := Set_delete_v c (setHeap st s))\<rparr>"

section \<open>The functions of the scheduler\<close>

subsection \<open>toBucketSets\<close>

text \<open>
  The first loop takes the largest key, starting from 0. The second loop writes the
  slots 0 to \<open>maxBucket\<close> of a new array in order, so each write extends the array by
  one slot; a slot gets the map's own Set object when the key is there, a new one
  otherwise. The array is returned as the list of the addresses of its Set objects.
\<close>

definition toBucketSets :: "addr \<Rightarrow> 'c store \<Rightarrow> addr list \<times> 'c store" where
  "toBucketSets buckets st =
     (let maxBucket = fold (\<lambda>key maxBucket. if key > maxBucket then key else maxBucket)
                        (Map_keys st buckets) 0
      in fold (\<lambda>i (result, st).
                 case Map_get st buckets i of
                   Some s \<Rightarrow> (result @ [s], st)
                 | None \<Rightarrow> (let (s, st') = new_Set st in (result @ [s], st')))
           [0..<Suc maxBucket] ([], st))"

subsection \<open>The functions on the dense bucket array\<close>

text \<open>
  \<^verbatim>\<open>getBucketRange\<close>, \<^verbatim>\<open>practice\<close> and \<^verbatim>\<open>computeProgress\<close> only read the Set
  objects of their array, so they take the array as the list of the contents of its
  Sets; \<open>dense\<close> reads an array of addresses in a store.
\<close>

definition dense :: "'c store \<Rightarrow> addr list \<Rightarrow> 'c list list" where
  "dense st arr = map (setHeap st) arr"

datatype jsnum = NegInfinity | Fin nat | Infinity

fun js_less :: "jsnum \<Rightarrow> jsnum \<Rightarrow> bool" where
  "js_less (Fin a) (Fin b) = (a < b)"
| "js_less (Fin a) Infinity = True"
| "js_less NegInfinity (Fin b) = True"
| "js_less NegInfinity Infinity = True"
| "js_less _ _ = False"

record bucket_range =
  minBucket :: jsnum
  maxBucket :: jsnum

definition getBucketRange :: "'c list list \<Rightarrow> bucket_range option" where
  "getBucketRange buckets =
     (let (mn, mx) =
            fold (\<lambda>i (mn, mx).
                    if length (buckets ! i) > 0
                    then (if js_less (Fin i) mn then Fin i else mn,
                          if js_less mx (Fin i) then Fin i else mx)
                    else (mn, mx))
              [0..<length buckets] (Infinity, NegInfinity)
      in if mn = Infinity then None else Some \<lparr>minBucket = mn, maxBucket = mx\<rparr>)"

definition add_all :: "'c list \<Rightarrow> 'c list \<Rightarrow> 'c list" where
  \<comment> \<open>\<^verbatim>\<open>for (let card of s) result.add(card)\<close>\<close>
  "add_all s result = fold Set_add_v s result"

definition practice :: "'c list list \<Rightarrow> nat \<Rightarrow> 'c list" where
  "practice buckets day =
     fold (\<lambda>i result.
             if i = 0 then add_all (buckets ! i) result
             else if day mod 2 ^ i = 0 then add_all (buckets ! i) result
             else result)
       [0..<length buckets] []"

record progress =
  totalCards :: int
  learnedCards :: int
  bucketDistribution :: "int list"

text \<open>
  In the loop of \<^verbatim>\<open>computeProgress\<close> the index \<open>i\<close> is the length of
  \<^verbatim>\<open>bucketDistribution\<close>, so the write at \<open>i\<close> extends the array by one slot.
  \<^verbatim>\<open>buckets[0]?.size || 0\<close> is 0 when the array has no slot 0 and when the size is 0.
\<close>

definition computeProgress :: "'c list list \<Rightarrow> 'h \<Rightarrow> progress" where
  "computeProgress buckets history =
     (let (total, dist) =
            fold (\<lambda>i (total, dist).
                    let count = int (length (buckets ! i))
                    in (total + count, dist @ [count]))
              [0..<length buckets] (0, []);
          learned = total - (case buckets of
                               [] \<Rightarrow> 0
                             | s # _ \<Rightarrow> (if int (length s) = 0 then 0 else int (length s)))
      in \<lparr>totalCards = total, learnedCards = learned, bucketDistribution = dist\<rparr>)"

subsection \<open>update\<close>

text \<open>
  The scan takes the key of the first entry, in insertion order, whose Set has the
  card. \<^verbatim>\<open>new Map(buckets)\<close> copies the entries, not the Set objects:
  \<^verbatim>\<open>delete\<close> and \<^verbatim>\<open>add\<close> then work on the Set objects of the caller's map.
\<close>

definition find_bucket :: "'c store \<Rightarrow> addr \<Rightarrow> 'c \<Rightarrow> nat option" where
  "find_bucket st buckets card' =
     map_option fst (find (\<lambda>(bucket, s). Set_has st s card') (mapHeap st buckets))"

definition update :: "addr \<Rightarrow> 'c \<Rightarrow> AnswerDifficulty \<Rightarrow> 'c store \<Rightarrow> addr \<times> 'c store" where
  "update buckets card' difficulty st =
     (let currentBucket = (case find_bucket st buckets card' of Some b \<Rightarrow> b | None \<Rightarrow> 0);
          (newBuckets, st1) = new_Map buckets st;
          st2 = (case Map_get st1 newBuckets currentBucket of
                   Some s \<Rightarrow> Set_delete s card' st1
                 | None \<Rightarrow> st1);
          newBucket = (case difficulty of
                         Easy \<Rightarrow> js_add1 currentBucket
                       | Hard \<Rightarrow> currentBucket
                       | Wrong \<Rightarrow> 0);
          (bucketSet, st3) = (case Map_get st2 newBuckets newBucket of
                                Some s \<Rightarrow> (s, st2)
                              | None \<Rightarrow> (let (s, st') = new_Set st2
                                         in (s, Map_set newBuckets newBucket s st')))
      in (newBuckets, Set_add bucketSet card' st3))"

section \<open>Reading a bucket map\<close>

text \<open>
  \<open>bucket st m k\<close> is the set of cards that map \<open>m\<close> reports in bucket \<open>k\<close>, if the
  key is there. A map is valid in a store when it and its Sets have been allocated;
  its buckets are separate when no two keys hold the same Set object; it has the
  one-bucket property when no card is in the Sets of two keys.
\<close>

definition bucket :: "'c store \<Rightarrow> addr \<Rightarrow> nat \<Rightarrow> 'c set option" where
  "bucket st m k = map_option (\<lambda>s. set (setHeap st s)) (Map_get st m k)"

definition valid_map :: "'c store \<Rightarrow> addr \<Rightarrow> bool" where
  "valid_map st m =
     (m < nextMap st \<and> distinct (map fst (mapHeap st m)) \<and>
      list_all (\<lambda>(k, s). s < nextSet st) (mapHeap st m))"

definition separate_buckets :: "'c store \<Rightarrow> addr \<Rightarrow> bool" where
  "separate_buckets st m = distinct (map snd (mapHeap st m))"

definition one_bucket :: "'c store \<Rightarrow> addr \<Rightarrow> bool" where
  "one_bucket st m =
     list_all (\<lambda>(k1, s1). list_all (\<lambda>(k2, s2).
        k1 = k2 \<or> set (setHeap st s1) \<inter> set (setHeap st s2) = {}) (mapHeap st m))
       (mapHeap st m)"

text \<open>
  \<open>current_bucket\<close> is the bucket that the scan of \<^verbatim>\<open>update\<close> settles on, 0 when no Set
  has the card; \<open>new_bucket\<close> is the bucket that the answer then selects. A card is in no
  bucket when no Set of the map has it.
\<close>

definition current_bucket :: "'c store \<Rightarrow> addr \<Rightarrow> 'c \<Rightarrow> nat" where
  "current_bucket st m c = (case find_bucket st m c of Some b \<Rightarrow> b | None \<Rightarrow> 0)"

definition new_bucket :: "AnswerDifficulty \<Rightarrow> nat \<Rightarrow> nat" where
  "new_bucket q b = (case q of Easy \<Rightarrow> js_add1 b | Hard \<Rightarrow> b | Wrong \<Rightarrow> 0)"

definition in_no_bucket :: "'c store \<Rightarrow> addr \<Rightarrow> 'c \<Rightarrow> bool" where
  "in_no_bucket st m c = list_all (\<lambda>(k, s). c \<notin> set (setHeap st s)) (mapHeap st m)"


section \<open>Example stores\<close>

definition scenario_store :: "nat store" where
  \<comment> \<open>Map object 0 is \<open>{0: {A}, 2: {B}}\<close>, with cards \<open>A = 1\<close> and \<open>B = 2\<close>\<close>
  "scenario_store =
     \<lparr>setHeap = (\<lambda>_. [])(0 := [1], 1 := [2]), nextSet = 2,
      mapHeap = (\<lambda>_. [])(0 := [(0, 0), (2, 1)]), nextMap = 1\<rparr>"

definition test_store :: "nat store" where
  \<comment> \<open>Map object 0 is \<open>{2: {card}}\<close>, with \<open>card = 1\<close>\<close>
  "test_store =
     \<lparr>setHeap = (\<lambda>_. [])(0 := [1]), nextSet = 1,
      mapHeap = (\<lambda>_. [])(0 := [(2, 0)]), nextMap = 1\<rparr>"

definition shared_store :: "nat store" where
  \<comment> \<open>Map object 0 is \<open>{0: {A}, 1: s, 2: s}\<close> for one empty Set object \<open>s\<close>, with \<open>A = 1\<close>\<close>
  "shared_store =
     \<lparr>setHeap = (\<lambda>_. [])(0 := [1], 1 := []), nextSet = 2,
      mapHeap = (\<lambda>_. [])(0 := [(0, 0), (1, 1), (2, 1)]), nextMap = 1\<rparr>"

definition shared_store2 :: "nat store" where
  \<comment> \<open>Map object 0 is \<open>{0: s, 1: s, 2: {A}}\<close> for one empty Set object \<open>s\<close>, with \<open>A = 1\<close>\<close>
  "shared_store2 =
     \<lparr>setHeap = (\<lambda>_. [])(0 := [], 1 := [1]), nextSet = 2,
      mapHeap = (\<lambda>_. [])(0 := [(0, 0), (1, 0), (2, 1)]), nextMap = 1\<rparr>"

definition empty_store :: "nat store" where
  \<comment> \<open>Map object 0 is the empty map\<close>
  "empty_store = \<lparr>setHeap = (\<lambda>_. []), nextSet = 0, mapHeap = (\<lambda>_. []), nextMap = 1\<rparr>"

section \<open>Reading a dense bucket array\<close>

text \<open>
  An index of the array is occupied when its Set is not empty. Bucket \<open>i\<close> is due on a
  day when \<open>i\<close> is 0 or \<open>2 ^ i\<close> divides the day. A card is only in bucket \<open>i\<close> when the
  Set at \<open>i\<close> has it and no other Set of the array does.
\<close>

definition occupied :: "'c list list \<Rightarrow> nat set" where
  "occupied buckets = set (filter (\<lambda>i. length (buckets ! i) > 0) [0..<length buckets])"

definition occupied_upto :: "'c list list \<Rightarrow> nat \<Rightarrow> nat set" where
  "occupied_upto buckets n = {i. i < n \<and> length (buckets ! i) > 0}"

definition due :: "nat \<Rightarrow> nat \<Rightarrow> bool" where
  "due i day = (i = 0 \<or> day mod 2 ^ i = 0)"

definition only_in_bucket :: "'c list list \<Rightarrow> 'c \<Rightarrow> nat \<Rightarrow> bool" where
  "only_in_bucket buckets c i =
     (i < length buckets \<and> c \<in> set (buckets ! i) \<and>
      list_all (\<lambda>j. j = i \<or> c \<notin> set (buckets ! j)) [0..<length buckets])"

section \<open>computeProgress\<close>

lemma computeProgress_loop:
  "fold (\<lambda>i (total, dist).
           let count = int (length (buckets ! i)) in (total + count, dist @ [count]))
     [0..<n] (0, [])
   = (sum_list (map (\<lambda>i. int (length (buckets ! i))) [0..<n]),
      map (\<lambda>i. int (length (buckets ! i))) [0..<n])"
  by (induction n) (simp_all add: Let_def)

lemma map_nth_upt: "map (\<lambda>i. f (xs ! i)) [0..<length xs] = map f xs"
  by (rule nth_equalityI) simp_all

lemma computeProgress_fold:
  "fold (\<lambda>i (total, dist).
           let count = int (length (bs ! i)) in (total + count, dist @ [count]))
     [0..<length bs] (0, [])
   = (sum_list (map (\<lambda>s. int (length s)) bs), map (\<lambda>s. int (length s)) bs)"
  using map_nth_upt[of "\<lambda>s. int (length s)" bs]
  by (simp add: computeProgress_loop)

text \<open>
  C7. \<^verbatim>\<open>computeProgress\<close> returns as \<open>totalCards\<close> the sum of the sizes of all
  buckets, as \<open>learnedCards\<close> that total minus the size of bucket 0 (minus 0 for the
  empty array), and as \<open>bucketDistribution\<close> the sizes of the buckets in order, as
  many as the array has buckets. On \<open>[{A}, {}, {B}]\<close> it returns 2, 1 and \<open>[1, 0, 1]\<close>.
\<close>

theorem computeProgress_statistics:
  "totalCards (computeProgress buckets history) = sum_list (map (\<lambda>s. int (length s)) buckets)
   \<and> learnedCards (computeProgress buckets history)
       = totalCards (computeProgress buckets history)
         - (if buckets = [] then 0 else int (length (buckets ! 0)))
   \<and> bucketDistribution (computeProgress buckets history) = map (\<lambda>s. int (length s)) buckets
   \<and> length (bucketDistribution (computeProgress buckets history)) = length buckets
   \<and> computeProgress [[a], [], [b]] history
       = \<lparr>totalCards = 2, learnedCards = 1, bucketDistribution = [1, 0, 1]\<rparr>"
proof -
  have ex: "computeProgress [[a], [], [b]] history
       = \<lparr>totalCards = 2, learnedCards = 1, bucketDistribution = [1, 0, 1]\<rparr>"
    unfolding computeProgress_def computeProgress_fold by simp
  show ?thesis
    using ex unfolding computeProgress_def computeProgress_fold
    by (cases buckets) simp_all
qed

text \<open>
  C9. The history argument of \<^verbatim>\<open>computeProgress\<close> has no influence on the result:
  any two histories, of any types, give the same statistics.
\<close>

theorem computeProgress_ignores_history:
  "computeProgress buckets h1 = computeProgress buckets h2"
  by (simp add: computeProgress_def)

section \<open>practice\<close>

lemma set_Set_add_v: "set (Set_add_v c s) = insert c (set s)"
  by (auto simp: Set_add_v_def)

lemma set_add_all: "set (add_all s result) = set s \<union> set result"
  unfolding add_all_def
  by (induction s arbitrary: result) (auto simp: set_Set_add_v)

lemma practice_loop:
  "set (fold (\<lambda>i result.
             if i = 0 then add_all (buckets ! i) result
             else if day mod 2 ^ i = 0 then add_all (buckets ! i) result
             else result) [0..<n] [])
   = (\<Union>i \<in> {i. i < n \<and> due i day}. set (buckets ! i))"
proof (induction n)
  case 0
  show ?case by simp
next
  case (Suc n)
  have split: "{i. i < Suc n \<and> due i day} = {i. i < n \<and> due i day} \<union> (if due n day then {n} else {})"
    by (auto simp: less_Suc_eq)
  show ?case
    unfolding split using Suc by (auto simp: set_add_all due_def)
qed

lemma set_practice:
  "set (practice buckets day) = (\<Union>i \<in> {i. i < length buckets \<and> due i day}. set (buckets ! i))"
  unfolding practice_def by (rule practice_loop)

lemma only_in_bucketD:
  "only_in_bucket buckets c i \<Longrightarrow> j < length buckets \<Longrightarrow> c \<in> set (buckets ! j) \<Longrightarrow> j = i"
  by (auto simp: only_in_bucket_def list_all_iff)

text \<open>
  C5. \<^verbatim>\<open>practice\<close> returns exactly the cards of the buckets that are due on the day:
  the cards of bucket 0 and, for \<open>i \<ge> 1\<close>, the cards of bucket \<open>i\<close> when
  \<open>day mod 2 ^ i = 0\<close>. Every card of bucket 0 is returned; a card that is only in bucket
  \<open>i \<ge> 1\<close> is returned if and only if \<open>day mod 2 ^ i = 0\<close>; on day 0 the result is the
  union of all buckets.
\<close>

theorem practice_due:
  "set (practice buckets day)
     = (\<Union>i \<in> {i. i < length buckets \<and> (i = 0 \<or> day mod 2 ^ i = 0)}. set (buckets ! i))
   \<and> (\<forall>c. 0 < length buckets \<and> c \<in> set (buckets ! 0) \<longrightarrow> c \<in> set (practice buckets day))
   \<and> (\<forall>c i. only_in_bucket buckets c i \<and> 1 \<le> i
         \<longrightarrow> (c \<in> set (practice buckets day) \<longleftrightarrow> day mod 2 ^ i = 0))
   \<and> set (practice buckets 0) = \<Union> (set ` set buckets)"
proof (intro conjI allI impI)
  show "set (practice buckets day)
     = (\<Union>i \<in> {i. i < length buckets \<and> (i = 0 \<or> day mod 2 ^ i = 0)}. set (buckets ! i))"
    by (rule set_practice [unfolded due_def])
next
  fix c assume "0 < length buckets \<and> c \<in> set (buckets ! 0)"
  then show "c \<in> set (practice buckets day)"
    unfolding set_practice by (auto simp: due_def)
next
  fix c i assume h: "only_in_bucket buckets c i \<and> 1 \<le> i"
  then have i: "i < length buckets" "c \<in> set (buckets ! i)" "i \<noteq> 0"
    by (auto simp: only_in_bucket_def)
  show "c \<in> set (practice buckets day) \<longleftrightarrow> day mod 2 ^ i = 0"
  proof
    assume "c \<in> set (practice buckets day)"
    then obtain j where j: "j < length buckets" "due j day" "c \<in> set (buckets ! j)"
      unfolding set_practice by auto
    with h have "j = i" by (auto dest: only_in_bucketD)
    with j i show "day mod 2 ^ i = 0" by (simp add: due_def)
  next
    assume "day mod 2 ^ i = 0"
    with i show "c \<in> set (practice buckets day)"
      unfolding set_practice by (auto simp: due_def)
  qed
next
  show "set (practice buckets 0) = \<Union> (set ` set buckets)"
  proof -
    have "set buckets = (\<lambda>i. buckets ! i) ` {i. i < length buckets}"
      by (auto simp: set_conv_nth)
    then show ?thesis
      unfolding set_practice by (simp add: due_def)
  qed
qed

theorem practice_due_witness:
  "only_in_bucket [[1], [2], [3::nat]] 3 2 \<and> (1::nat) \<le> 2
   \<and> 3 \<in> set (practice [[1], [2], [3::nat]] 4) \<and> 3 \<notin> set (practice [[1], [2], [3::nat]] 6)"
proof -
  have h: "only_in_bucket [[1], [2], [3::nat]] 3 2 \<and> (1::nat) \<le> 2"
    by (simp add: only_in_bucket_def)
  have d: "(3 \<in> set (practice [[1], [2], [3::nat]] day)) = (day mod 2 ^ 2 = 0)" for day
  proof -
    from practice_due [of "[[1], [2], [3::nat]]" day]
    have "\<forall>c i. only_in_bucket [[1], [2], [3::nat]] c i \<and> 1 \<le> i
         \<longrightarrow> (c \<in> set (practice [[1], [2], [3::nat]] day) \<longleftrightarrow> day mod 2 ^ i = 0)"
      by (elim conjE)
    then show ?thesis using h by (elim allE [of _ 3] allE [of _ 2] impE) 
  qed
  show ?thesis using h d [of 4] d [of 6] by simp
qed

section \<open>getBucketRange\<close>

lemma occupied_upto_Suc:
  "occupied_upto buckets (Suc n)
   = (if length (buckets ! n) > 0 then insert n (occupied_upto buckets n)
      else occupied_upto buckets n)"
  by (auto simp: occupied_upto_def less_Suc_eq)

lemma finite_occupied_upto: "finite (occupied_upto buckets n)"
  by (simp add: occupied_upto_def)

lemma occupied_upto_less: "i \<in> occupied_upto buckets n \<Longrightarrow> i < n"
  by (simp add: occupied_upto_def)

lemma occupied_eq: "occupied buckets = occupied_upto buckets (length buckets)"
  by (auto simp: occupied_def occupied_upto_def)

lemma getBucketRange_loop:
  "fold (\<lambda>i (mn, mx).
           if length (buckets ! i) > 0
           then (if js_less (Fin i) mn then Fin i else mn,
                 if js_less mx (Fin i) then Fin i else mx)
           else (mn, mx))
     [0..<n] (Infinity, NegInfinity)
   = (if occupied_upto buckets n = {} then (Infinity, NegInfinity)
      else (Fin (Min (occupied_upto buckets n)), Fin (Max (occupied_upto buckets n))))"
proof (induction n)
  case 0
  show ?case by (simp add: occupied_upto_def)
next
  case (Suc n)
  let ?O = "occupied_upto buckets n"
  show ?case
  proof (cases "length (buckets ! n) > 0")
    case False
    with Suc show ?thesis by (simp add: occupied_upto_Suc)
  next
    case True
    show ?thesis
    proof (cases "?O = {}")
      case True
      with Suc \<open>length (buckets ! n) > 0\<close> show ?thesis
        by (simp add: occupied_upto_Suc)
    next
      case False
      have fin: "finite ?O" by (rule finite_occupied_upto)
      have "Min ?O \<in> ?O" "Max ?O \<in> ?O" using fin False by simp_all
      then have lt: "Min ?O < n" "Max ?O < n" by (auto dest: occupied_upto_less)
      have "Min (insert n ?O) = min n (Min ?O)"
        by (rule Min_insert [OF fin False])
      also have "\<dots> = Min ?O"
        by (rule min_absorb2) (rule less_imp_le [OF lt(1)])
      finally have mn: "Min (insert n ?O) = Min ?O" .
      have "Max (insert n ?O) = max n (Max ?O)"
        by (rule Max_insert [OF fin False])
      also have "\<dots> = n"
        by (rule max_absorb1) (rule less_imp_le [OF lt(2)])
      finally have mx: "Max (insert n ?O) = n" .
      from Suc True False lt mn mx show ?thesis
        by (simp add: occupied_upto_Suc)
    qed
  qed
qed

text \<open>
  C6. \<^verbatim>\<open>getBucketRange\<close> returns the least and the greatest occupied index when an
  index is occupied, both equal to \<open>i\<close> when \<open>i\<close> is the only one, and no result exactly
  when no index is occupied, as for the array of length 0.
\<close>

theorem getBucketRange_occupied:
  "getBucketRange (buckets :: 'c list list)
     = (if occupied buckets = {} then None
        else Some \<lparr>minBucket = Fin (Min (occupied buckets)),
                   maxBucket = Fin (Max (occupied buckets))\<rparr>)
   \<and> (getBucketRange buckets = None \<longleftrightarrow> occupied buckets = {})
   \<and> (\<forall>i. occupied buckets = {i}
         \<longrightarrow> getBucketRange buckets = Some \<lparr>minBucket = Fin i, maxBucket = Fin i\<rparr>)
   \<and> getBucketRange ([] :: 'c list list) = None"
proof -
  have main: "getBucketRange bs
     = (if occupied bs = {} then None
        else Some \<lparr>minBucket = Fin (Min (occupied bs)), maxBucket = Fin (Max (occupied bs))\<rparr>)"
    for bs :: "'c list list"
    unfolding getBucketRange_def getBucketRange_loop occupied_eq by simp
  have empty: "occupied ([] :: 'c list list) = {}"
    by (simp add: occupied_def)
  show ?thesis
    using main [of buckets] main [of "[]"] empty by auto
qed

theorem getBucketRange_occupied_witness:
  "occupied [[], [1::nat], []] = {1}
   \<and> getBucketRange [[], [1::nat], []] = Some \<lparr>minBucket = Fin 1, maxBucket = Fin 1\<rparr>"
proof -
  have h: "occupied [[], [1::nat], []] = {1}"
    by (simp add: occupied_def)
  from getBucketRange_occupied [of "[[], [1::nat], []]"]
  have "\<forall>i. occupied [[], [1::nat], []] = {i}
         \<longrightarrow> getBucketRange [[], [1::nat], []] = Some \<lparr>minBucket = Fin i, maxBucket = Fin i\<rparr>"
    by (elim conjE)
  then show ?thesis using h by (elim allE [of _ 1] impE) simp_all
qed

section \<open>toBucketSets\<close>







text \<open>
  C2, as the code has it. For the empty map the first loop leaves \<open>maxBucket\<close> at 0 and
  the second loop runs once: \<^verbatim>\<open>toBucketSets\<close> returns an array of length 1 whose only
  slot is a new, empty Set.
\<close>

theorem toBucketSets_empty_map:
  assumes "mapHeap st m = []"
  shows "case toBucketSets m st of (result, st') \<Rightarrow>
     result = [nextSet st] \<and> length result = 1 \<and> dense st' result = [[]]
     \<and> mapHeap st' = mapHeap st"
  using assms
  by (simp add: toBucketSets_def Map_keys_def Map_get_def new_Set_def dense_def)

theorem toBucketSets_empty_map_witness:
  "mapHeap empty_store 0 = []
   \<and> (case toBucketSets 0 empty_store of (result, st') \<Rightarrow>
         length result = 1 \<and> dense st' result = [[]])"
proof -
  have h: "mapHeap empty_store 0 = []" by (simp add: empty_store_def)
  from toBucketSets_empty_map [OF h] h show ?thesis
    by (simp split: prod.splits)
qed

text \<open>
  C2, as the claim has it, fails: for the empty map the array returned is not the empty
  array.
\<close>

theorem toBucketSets_empty_map_not_empty:
  "mapHeap empty_store 0 = [] \<and> fst (toBucketSets 0 empty_store) \<noteq> []
   \<and> length (fst (toBucketSets 0 empty_store)) = 1"
  by (simp add: empty_store_def toBucketSets_def Map_keys_def Map_get_def new_Set_def)

section \<open>update\<close>

lemmas store_ops = new_Map_def new_Set_def Map_get_def Map_set_def Set_add_def Set_delete_def

lemma separate_same_set:
  "distinct (map snd es) \<Longrightarrow> map_of es k1 = Some a \<Longrightarrow> map_of es k2 = Some a \<Longrightarrow> k1 = k2"
proof -
  assume d: "distinct (map snd es)" and 1: "map_of es k1 = Some a" and 2: "map_of es k2 = Some a"
  from d have "inj_on snd (set es)" by (simp add: distinct_map)
  moreover from 1 2 have "(k1, a) \<in> set es" "(k2, a) \<in> set es" by (auto dest: map_of_SomeD)
  ultimately show ?thesis using inj_on_eq_iff [of snd "set es" "(k1, a)" "(k2, a)"] by simp
qed

lemma allocated_set:
  "list_all (\<lambda>(k, s). s < n) es \<Longrightarrow> map_of es k = Some a \<Longrightarrow> a < n"
  by (auto simp: list_all_iff dest: map_of_SomeD)

lemma set_Set_delete_v: "set (Set_delete_v c s) = set s - {c}"
  by (simp add: Set_delete_v_def)

lemma update_buckets:
  assumes v: "valid_map st m" and s: "separate_buckets st m"
    and u: "update m c q st = (m', st')"
  shows "bucket st' m' k =
     (if k = new_bucket q (current_bucket st m c)
      then Some (insert c (case bucket st m k of Some S \<Rightarrow> S | None \<Rightarrow> {}))
      else if k = current_bucket st m c
      then map_option (\<lambda>S. S - {c}) (bucket st m k)
      else bucket st m k)"
proof -
  let ?es = "mapHeap st m"
  let ?b = "current_bucket st m c"
  let ?nb = "new_bucket q ?b"
  have d: "distinct (map snd ?es)" using s by (simp add: separate_buckets_def)
  have a: "list_all (\<lambda>(k, s). s < nextSet st) ?es" using v by (simp add: valid_map_def)
  note sep = separate_same_set [OF d]
  note alloc = allocated_set [OF a]
  have fresh: "a \<noteq> nextSet st" if "map_of ?es k = Some a" for k a
    using alloc [OF that] by simp
  show ?thesis
    using u 
    by (cases "map_of ?es ?b"; cases "map_of ?es ?nb"; cases "map_of ?es k")
       (auto simp: update_def store_ops bucket_def Let_def update_conv' set_Set_add_v
            set_Set_delete_v current_bucket_def [symmetric] new_bucket_def [symmetric]
            dest: fresh sep)
qed

lemma bucket_entry:
  "bucket st m k = Some S \<Longrightarrow> \<exists>a. (k, a) \<in> set (mapHeap st m) \<and> S = set (setHeap st a)"
  by (auto simp: bucket_def Map_get_def dest: map_of_SomeD)

lemma entry_bucket:
  "valid_map st m \<Longrightarrow> (k, a) \<in> set (mapHeap st m) \<Longrightarrow> bucket st m k = Some (set (setHeap st a))"
  by (simp add: bucket_def Map_get_def valid_map_def)

lemma one_bucketD:
  assumes "one_bucket st m" "bucket st m k1 = Some S1" "bucket st m k2 = Some S2"
    "c \<in> S1" "c \<in> S2"
  shows "k1 = k2"
proof -
  from assms(2) obtain a1 where 1: "(k1, a1) \<in> set (mapHeap st m)" "S1 = set (setHeap st a1)"
    by (auto dest: bucket_entry)
  from assms(3) obtain a2 where 2: "(k2, a2) \<in> set (mapHeap st m)" "S2 = set (setHeap st a2)"
    by (auto dest: bucket_entry)
  from assms(1) 1(1) 2(1)
  have "k1 = k2 \<or> set (setHeap st a1) \<inter> set (setHeap st a2) = {}"
    by (fastforce simp: one_bucket_def list_all_iff)
  with assms(4,5) 1(2) 2(2) show ?thesis by auto
qed

lemma one_bucketI:
  assumes v: "valid_map st m"
    and d: "\<And>k1 k2 S1 S2 c. bucket st m k1 = Some S1 \<Longrightarrow> bucket st m k2 = Some S2 \<Longrightarrow>
              c \<in> S1 \<Longrightarrow> c \<in> S2 \<Longrightarrow> k1 = k2"
  shows "one_bucket st m"
  unfolding one_bucket_def list_all_iff
proof (intro ballI, clarify)
  fix k1 a1 k2 a2
  assume 1: "(k1, a1) \<in> set (mapHeap st m)" and 2: "(k2, a2) \<in> set (mapHeap st m)"
    and ne: "set (setHeap st a1) \<inter> set (setHeap st a2) \<noteq> {}"
  then obtain c where "c \<in> set (setHeap st a1)" "c \<in> set (setHeap st a2)" by auto
  with d [OF entry_bucket [OF v 1] entry_bucket [OF v 2]] show "k1 = k2" by simp
qed

lemma find_bucket_Some:
  "find_bucket st m c = Some b \<Longrightarrow> \<exists>a. (b, a) \<in> set (mapHeap st m) \<and> c \<in> set (setHeap st a)"
proof -
  assume "find_bucket st m c = Some b"
  then obtain a where "find (\<lambda>(bucket, s). Set_has st s c) (mapHeap st m) = Some (b, a)"
    by (auto simp: find_bucket_def)
  then obtain i where "i < length (mapHeap st m)" "mapHeap st m ! i = (b, a)" "Set_has st a c"
    by (auto simp: find_Some_iff)
  then have "(b, a) \<in> set (mapHeap st m)" "c \<in> set (setHeap st a)"
    by (auto simp: Set_has_def Set_has_v_def dest: nth_mem)
  then show ?thesis by blast
qed

lemma find_bucket_None:
  "find_bucket st m c = None \<longleftrightarrow> in_no_bucket st m c"
  by (auto simp: find_bucket_def Set_has_def Set_has_v_def find_None_iff in_no_bucket_def
      list_all_iff)

lemma current_bucket_of_card:
  assumes v: "valid_map st m" and o: "one_bucket st m"
    and b: "bucket st m b = Some B" and c: "c \<in> B"
  shows "current_bucket st m c = b"
proof (cases "find_bucket st m c")
  case None
  then have "in_no_bucket st m c" by (simp add: find_bucket_None)
  with bucket_entry [OF b] c show ?thesis
    by (auto simp: in_no_bucket_def list_all_iff)
next
  case (Some k)
  then obtain a where a: "(k, a) \<in> set (mapHeap st m)" "c \<in> set (setHeap st a)"
    by (auto dest: find_bucket_Some)
  from one_bucketD [OF o entry_bucket [OF v a(1)] b a(2) c] Some
  show ?thesis by (simp add: current_bucket_def)
qed

lemma current_bucket_unknown: "in_no_bucket st m c \<Longrightarrow> current_bucket st m c = 0"
  by (simp add: current_bucket_def find_bucket_None [symmetric])

lemma update_new_bucket_has_card:
  assumes u: "update m c q st = (m', st')"
  shows "\<exists>S. bucket st' m' (new_bucket q (current_bucket st m c)) = Some S \<and> c \<in> S"
  using u
  by (cases "map_of (mapHeap st m) (current_bucket st m c)";
      cases "map_of (mapHeap st m) (new_bucket q (current_bucket st m c))")
     (auto simp: update_def store_ops bucket_def Let_def update_conv' set_Set_add_v
            set_Set_delete_v current_bucket_def [symmetric] new_bucket_def [symmetric])

lemmas update_eval = update_def js_add1_def find_bucket_def Set_has_def Set_has_v_def store_ops
  Set_add_v_def Set_delete_v_def bucket_def valid_map_def separate_buckets_def one_bucket_def
  in_no_bucket_def

lemma update_append: "map_of al k = None \<Longrightarrow> AList.update k v al = al @ [(k, v)]"
  by (induction al) (auto split: if_splits)

lemma update_shape:
  assumes u: "update m c q st = (m', st')"
  shows "m' = nextMap st \<and> nextMap st' = Suc (nextMap st)
    \<and> (\<forall>m0. m0 \<noteq> nextMap st \<longrightarrow> mapHeap st' m0 = mapHeap st m0)
    \<and> mapHeap st' m' =
        (case map_of (mapHeap st m) (new_bucket q (current_bucket st m c)) of
           Some a \<Rightarrow> mapHeap st m
         | None \<Rightarrow> mapHeap st m @ [(new_bucket q (current_bucket st m c), nextSet st)])
    \<and> nextSet st' =
        (case map_of (mapHeap st m) (new_bucket q (current_bucket st m c)) of
           Some a \<Rightarrow> nextSet st
         | None \<Rightarrow> Suc (nextSet st))"
  using u
  by (cases "map_of (mapHeap st m) (current_bucket st m c)";
      cases "map_of (mapHeap st m) (new_bucket q (current_bucket st m c))")
     (auto simp: update_def store_ops Let_def update_append
            current_bucket_def [symmetric] new_bucket_def [symmetric])

lemma update_valid_map:
  assumes v: "valid_map st m" and u: "update m c q st = (m', st')"
  shows "valid_map st' m'"
proof -
  let ?nb = "new_bucket q (current_bucket st m c)"
  note sh = update_shape [OF u]
  show ?thesis
  proof (cases "map_of (mapHeap st m) ?nb")
    case None
    then have "?nb \<notin> fst ` set (mapHeap st m)" by (simp add: map_of_eq_None_iff)
    with v sh None show ?thesis
      by (fastforce simp: valid_map_def list_all_iff)
  next
    case (Some a)
    with v sh show ?thesis by (auto simp: valid_map_def)
  qed
qed

lemma update_separate_buckets:
  assumes v: "valid_map st m" and s: "separate_buckets st m"
    and u: "update m c q st = (m', st')"
  shows "separate_buckets st' m'"
proof -
  let ?nb = "new_bucket q (current_bucket st m c)"
  note sh = update_shape [OF u]
  show ?thesis
  proof (cases "map_of (mapHeap st m) ?nb")
    case None
    from v have "nextSet st \<notin> snd ` set (mapHeap st m)"
      by (auto simp: valid_map_def list_all_iff)
    with s sh None show ?thesis
      by (auto simp: separate_buckets_def)
  next
    case (Some a)
    with s sh show ?thesis by (auto simp: separate_buckets_def)
  qed
qed

lemma update_card_only_in_new_bucket:
  assumes v: "valid_map st m" and s: "separate_buckets st m" and o: "one_bucket st m"
    and u: "update m c q st = (m', st')" and k: "bucket st' m' k = Some S"
  shows "c \<in> S \<longleftrightarrow> k = new_bucket q (current_bucket st m c)"
proof -
  let ?b = "current_bucket st m c"
  let ?nb = "new_bucket q ?b"
  note view = update_buckets [OF v s u]
  show ?thesis
  proof (cases "k = ?nb")
    case True
    with view [of k] k show ?thesis by auto
  next
    case False
    note nb = False
    show ?thesis
    proof (cases "k = ?b")
      case True
      with view [of k] k nb show ?thesis by auto
    next
      case False
      with view [of k] nb k have old: "bucket st m k = Some S" by simp
      have "c \<notin> S"
      proof
        assume "c \<in> S"
        from current_bucket_of_card [OF v o old this] False show False by simp
      qed
      with nb show ?thesis by simp
    qed
  qed
qed

lemma update_other_cards:
  assumes v: "valid_map st m" and s: "separate_buckets st m"
    and u: "update m c q st = (m', st')" and k: "bucket st' m' k = Some S"
    and x: "x \<in> S" "x \<noteq> c"
  shows "\<exists>S0. bucket st m k = Some S0 \<and> x \<in> S0"
  using update_buckets [OF v s u, of k] k x
  by (cases "bucket st m k") (auto split: if_splits)

lemma js_add1_exact: "x < 9007199254740992 \<Longrightarrow> js_add1 x = x + 1"
  by (simp add: js_add1_def)

lemma js_add1_rounds:
  "js_add1 9007199254740992 = 9007199254740992"
  "js_add1 9007199254740994 = 9007199254740996"
  by (simp_all add: js_add1_def)

text \<open>
  What \<^verbatim>\<open>update\<close> does on a map whose buckets are separate Set objects, when the map has
  the one-bucket property and card \<open>c\<close> is in bucket \<open>b\<close>: the new bucket (\<open>js_add1 b\<close> for
  Easy, \<open>b\<close> for Hard, 0 for Wrong) exists and holds what it held before together with
  \<open>c\<close>; \<open>c\<close> is in that bucket and in no other; bucket \<open>b\<close>, when it is not the new
  bucket, holds what it held before without \<open>c\<close>; every other bucket is as before.
\<close>

lemma update_moves_card:
  assumes "valid_map st m" and "separate_buckets st m" and "one_bucket st m"
    and "bucket st m b = Some B" and "c \<in> B"
  shows "case update m c q st of (m', st') \<Rightarrow>
     bucket st' m' (new_bucket q b)
       = Some (insert c (case bucket st m (new_bucket q b) of Some S \<Rightarrow> S | None \<Rightarrow> {}))
     \<and> (\<forall>k S. bucket st' m' k = Some S \<longrightarrow> (c \<in> S \<longleftrightarrow> k = new_bucket q b))
     \<and> (new_bucket q b \<noteq> b \<longrightarrow> bucket st' m' b = Some (B - {c}))
     \<and> (\<forall>k. k \<noteq> b \<and> k \<noteq> new_bucket q b \<longrightarrow> bucket st' m' k = bucket st m k)"
proof -
  obtain m' st' where u: "update m c q st = (m', st')" by fastforce
  have cb: "current_bucket st m c = b"
    by (rule current_bucket_of_card [OF assms(1,3,4,5)])
  note view = update_buckets [OF assms(1,2) u, unfolded cb]
  note only = update_card_only_in_new_bucket [OF assms(1,2,3) u, unfolded cb]
  show ?thesis
    unfolding u using view only assms(4) by simp
qed

lemma scenario_store_ok:
  "valid_map scenario_store 0 \<and> separate_buckets scenario_store 0 \<and> one_bucket scenario_store 0"
  by (simp add: scenario_store_def valid_map_def separate_buckets_def one_bucket_def)

text \<open>On \<open>{0: {A}, 2: {B}}\<close>, card \<open>A\<close> and Easy the result is \<open>{0: {}, 1: {A}, 2: {B}}\<close>.\<close>

lemma update_scenario:
  "case update 0 1 Easy scenario_store of (m', st') \<Rightarrow>
     mapHeap st' m' = [(0, 0), (2, 1), (1, 2)]
     \<and> bucket st' m' 0 = Some {} \<and> bucket st' m' 1 = Some {1} \<and> bucket st' m' 2 = Some {2}"
  by (simp add: scenario_store_def update_eval)

text \<open>
  C3 fails on the code. \<^verbatim>\<open>update\<close> adds the card to the Set object that the caller's map
  holds under the new key, in place. On \<open>{0: {A}, 1: s, 2: s}\<close>, where \<open>s\<close> is one empty Set
  object, no card is in two buckets and \<open>A\<close> is in bucket 0; after \<^verbatim>\<open>update\<close> with \<open>A\<close>
  and Easy the map returned reports \<open>A\<close> in bucket 1 and in bucket 2, not in bucket 1
  only.
\<close>

theorem update_shared_set_two_buckets:
  "valid_map shared_store 0 \<and> one_bucket shared_store 0 \<and> bucket shared_store 0 0 = Some {1}
   \<and> bucket (snd (update 0 1 Easy shared_store)) (fst (update 0 1 Easy shared_store)) 0 = Some {}
   \<and> bucket (snd (update 0 1 Easy shared_store)) (fst (update 0 1 Easy shared_store)) 1 = Some {1}
   \<and> bucket (snd (update 0 1 Easy shared_store)) (fst (update 0 1 Easy shared_store)) 2 = Some {1}"
  by (simp add: shared_store_def update_eval)

text \<open>
  On a map whose buckets are separate Set objects \<^verbatim>\<open>update\<close> keeps the one-bucket
  property, whatever the card and the answer; the buckets of the map returned are again
  separate Set objects and that map is valid in the new store.
\<close>

lemma update_preserves_one_bucket:
  assumes "valid_map st m" and "separate_buckets st m" and "one_bucket st m"
  shows "case update m c q st of (m', st') \<Rightarrow>
     one_bucket st' m' \<and> separate_buckets st' m' \<and> valid_map st' m'"
proof -
  obtain m' st' where u: "update m c q st = (m', st')" by fastforce
  have v': "valid_map st' m'" by (rule update_valid_map [OF assms(1) u])
  have s': "separate_buckets st' m'" by (rule update_separate_buckets [OF assms(1,2) u])
  have "one_bucket st' m'"
  proof (rule one_bucketI [OF v'])
    fix k1 k2 S1 S2 x
    assume k1: "bucket st' m' k1 = Some S1" and k2: "bucket st' m' k2 = Some S2"
      and x1: "x \<in> S1" and x2: "x \<in> S2"
    show "k1 = k2"
    proof (cases "x = c")
      case True
      with update_card_only_in_new_bucket [OF assms u k1]
        update_card_only_in_new_bucket [OF assms u k2] x1 x2
      show ?thesis by simp
    next
      case False
      from update_other_cards [OF assms(1,2) u k1 x1 False]
      obtain T1 where 1: "bucket st m k1 = Some T1" "x \<in> T1" by blast
      from update_other_cards [OF assms(1,2) u k2 x2 False]
      obtain T2 where 2: "bucket st m k2 = Some T2" "x \<in> T2" by blast
      from one_bucketD [OF assms(3) 1(1) 2(1) 1(2) 2(2)] show ?thesis .
    qed
  qed
  with v' s' show ?thesis unfolding u by simp
qed

text \<open>
  C10 fails on the code. On \<open>{0: s, 1: s, 2: {A}}\<close>, where \<open>s\<close> is one empty Set object,
  no card is in two buckets. \<^verbatim>\<open>update\<close> with \<open>A\<close> and Wrong adds \<open>A\<close> to \<open>s\<close> in place,
  and the map returned reports \<open>A\<close> in bucket 0 and in bucket 1: the one-bucket
  property is lost.
\<close>

theorem update_shared_set_breaks_one_bucket:
  "valid_map shared_store2 0 \<and> one_bucket shared_store2 0
   \<and> \<not> one_bucket (snd (update 0 1 Wrong shared_store2)) (fst (update 0 1 Wrong shared_store2))
   \<and> bucket (snd (update 0 1 Wrong shared_store2)) (fst (update 0 1 Wrong shared_store2)) 0 = Some {1}
   \<and> bucket (snd (update 0 1 Wrong shared_store2)) (fst (update 0 1 Wrong shared_store2)) 1 = Some {1}
   \<and> bucket (snd (update 0 1 Wrong shared_store2)) (fst (update 0 1 Wrong shared_store2)) 2 = Some {}"
  by (simp add: shared_store2_def update_eval)

text \<open>
  C4. \<^verbatim>\<open>update\<close> has no failing branch: it returns a map and a store for every map, card
  and answer. When no Set of the map has the card, the scan settles on bucket 0, and the
  map returned reports the card in bucket 1 for Easy and in bucket 0 for Hard and Wrong.
\<close>

theorem update_unknown_card:
  assumes "in_no_bucket st m c"
  shows "current_bucket st m c = 0
     \<and> (case update m c q st of (m', st') \<Rightarrow>
          \<exists>S. bucket st' m' (case q of Easy \<Rightarrow> 1 | Hard \<Rightarrow> 0 | Wrong \<Rightarrow> 0) = Some S \<and> c \<in> S)"
proof -
  obtain m' st' where u: "update m c q st = (m', st')" by fastforce
  have cb: "current_bucket st m c = 0" by (rule current_bucket_unknown [OF assms])
  have nb: "new_bucket q 0 = (case q of Easy \<Rightarrow> 1 | Hard \<Rightarrow> 0 | Wrong \<Rightarrow> 0)"
    by (simp add: new_bucket_def js_add1_def split: AnswerDifficulty.splits)
  from update_new_bucket_has_card [OF u, unfolded cb nb] cb show ?thesis
    unfolding u by simp
qed

theorem update_unknown_card_witness:
  "in_no_bucket scenario_store 0 7
   \<and> (case update 0 7 Easy scenario_store of (m', st') \<Rightarrow> \<exists>S. bucket st' m' 1 = Some S \<and> 7 \<in> S)"
proof -
  have h: "in_no_bucket scenario_store 0 7"
    by (simp add: scenario_store_def in_no_bucket_def)
  from update_unknown_card [OF h, of Easy] h show ?thesis by simp
qed

lemma update_returns_new_map:
  assumes "valid_map st m" and "update m c q st = (m', st')"
  shows "m' \<noteq> m \<and> mapHeap st' m = mapHeap st m"
  using update_shape [OF assms(2)] assms(1) by (auto simp: valid_map_def)

text \<open>
  C1 fails on the code. On the map \<open>{2: {card}}\<close>, \<^verbatim>\<open>update\<close> with Easy returns a new Map
  object and leaves the entries of the caller's Map object as they were, but the two maps
  hold the same Set object under key 2, and \<^verbatim>\<open>update\<close> deletes the card from it: read
  after the call, the caller's map reports bucket 2 as empty.
\<close>

theorem update_empties_callers_set:
  "bucket test_store 0 2 = Some {1}
   \<and> (case update 0 1 Easy test_store of (m', st') \<Rightarrow>
         m' \<noteq> 0 \<and> mapHeap st' 0 = mapHeap test_store 0
         \<and> Map_get st' m' 2 = Map_get st' 0 2
         \<and> bucket st' 0 2 = Some {}
         \<and> bucket st' m' 2 = Some {} \<and> bucket st' m' 3 = Some {1})"
  by (simp add: test_store_def update_eval)

end
